theory Spec2Isabelle
  imports Main
begin

section \<open>Tasks, error values and handlers\<close>

text \<open>
  The package \<^verbatim>\<open>ksat\<close> (file \<^verbatim>\<open>task.go\<close>) is embedded as follows.

  \<^item> A Go \<^verbatim>\<open>error\<close> is an \<open>'e option\<close>: \<open>None\<close> is \<^verbatim>\<open>nil\<close>, \<open>Some e\<close> a non-nil
    error value \<open>e\<close>.
  \<^item> Everything a task or a handler can read or change outside the runner is the
    world \<open>'w\<close>. The \<^verbatim>\<open>context.Context\<close> is an opaque value of type \<open>'c\<close>.
  \<^item> The interface \<^verbatim>\<open>Task\<close> has the single method \<^verbatim>\<open>Run(context.Context) error\<close>; a
    task is that method: given the context and the world it returns the error and
    the world it leaves behind. Task bodies are taken as returning; the nil interface
    value and the nil \<^verbatim>\<open>Func\<close> are not tasks of the model.
  \<^item> An \<^verbatim>\<open>ErrorHandler\<close> is a Go function value, which may be \<^verbatim>\<open>nil\<close>: \<open>None\<close> is
    the nil function, \<open>Some h\<close> a function \<open>h\<close> that changes the world.
  \<^item> The \<^verbatim>\<open>List\<close> or \<^verbatim>\<open>Chain\<close> a task is registered in is not part of the world: tasks
    and handlers do not call \<^verbatim>\<open>Add\<close> or \<^verbatim>\<open>Run\<close> on their own runner. The package
    leaves it to the caller to keep \<^verbatim>\<open>Add\<close> and \<^verbatim>\<open>Run\<close> of one runner apart.
\<close>

type_synonym ('c, 'w, 'e) Task = "'c \<Rightarrow> 'w \<Rightarrow> 'e option \<times> 'w"

type_synonym ('c, 'w, 'e) Func = "'c \<Rightarrow> 'w \<Rightarrow> 'e option \<times> 'w"

type_synonym ('w, 'e) ErrorHandler = "('e \<Rightarrow> 'w \<Rightarrow> 'w) option"

text \<open>\<^verbatim>\<open>func (fn Func) Run(ctx context.Context) error { return fn(ctx) }\<close>\<close>

definition Func_Run :: "('c, 'w, 'e) Func \<Rightarrow> 'c \<Rightarrow> 'w \<Rightarrow> 'e option \<times> 'w" where
  "Func_Run fn ctx = fn ctx"

section \<open>Slices\<close>

text \<open>
  A Go slice is \<open>None\<close> when it is \<^verbatim>\<open>nil\<close> (the zero value) and \<open>Some xs\<close> when it
  is allocated, also with no element. \<^verbatim>\<open>len\<close> and \<^verbatim>\<open>range\<close> read a nil slice as one
  with no element; \<^verbatim>\<open>append(s, xs...)\<close> returns \<open>s\<close> itself when there is nothing to
  append and an allocated slice otherwise.
\<close>

type_synonym 'a slice = "'a list option"

definition elems :: "'a slice \<Rightarrow> 'a list" where
  "elems s = (case s of None \<Rightarrow> [] | Some xs \<Rightarrow> xs)"

definition len :: "'a slice \<Rightarrow> nat" where
  "len s = length (elems s)"

definition append_slice :: "'a slice \<Rightarrow> 'a list \<Rightarrow> 'a slice" where
  "append_slice s xs = (case xs of [] \<Rightarrow> s | _ # _ \<Rightarrow> Some (elems s @ xs))"

section \<open>Chain\<close>

text \<open>\<^verbatim>\<open>type Chain struct { tasks []Task }\<close>\<close>

record ('c, 'w, 'e) Chain =
  Chain_tasks :: "('c, 'w, 'e) Task slice"

text \<open>\<^verbatim>\<open>func (c *Chain) Add(t ...Task) { c.tasks = append(c.tasks, t...) }\<close>\<close>

definition Chain_Add :: "('c, 'w, 'e) Chain \<Rightarrow> ('c, 'w, 'e) Task list \<Rightarrow> ('c, 'w, 'e) Chain" where
  "Chain_Add c t = c\<lparr>Chain_tasks := append_slice (Chain_tasks c) t\<rparr>"

text \<open>
  The loop of \<^verbatim>\<open>Chain.Run\<close> (lines 61 to 65) over the elements still to visit, the first
  of them at position \<open>i\<close> of \<^verbatim>\<open>c.tasks\<close>:
  \<^verbatim>\<open>
  for _, tsk := range c.tasks {
      if err := tsk.Run(ctx); err != nil {
          return err
      }
  }
  \<close>
  It yields \<open>Some err\<close> when line 63 returns \<open>err\<close> out of the function and \<open>None\<close>
  when the range is exhausted, the world after the last call, and the positions of
  the tasks whose \<^verbatim>\<open>Run\<close> was called, in the order of the calls.
\<close>

fun Chain_loop :: "'c \<Rightarrow> ('c, 'w, 'e) Task list \<Rightarrow> nat \<Rightarrow> 'w \<Rightarrow> 'e option \<times> 'w \<times> nat list" where
  "Chain_loop ctx [] i w = (None, w, [])"
| "Chain_loop ctx (tsk # rest) i w =
     (case tsk ctx w of
        (Some err, w') \<Rightarrow> (Some err, w', [i])
      | (None, w') \<Rightarrow>
          (case Chain_loop ctx rest (Suc i) w' of (r, w'', ps) \<Rightarrow> (r, w'', i # ps)))"

text \<open>
  What a call of \<^verbatim>\<open>Chain.Run\<close> leaves: the returned error, the chain, the world and
  the positions of the tasks it called.
\<close>

record ('c, 'w, 'e) Chain_result =
  returned :: "'e option"
  chain :: "('c, 'w, 'e) Chain"
  world :: 'w
  called :: "nat list"

text \<open>
  \<^verbatim>\<open>
  func (c *Chain) Run(ctx context.Context) error {
      for _, tsk := range c.tasks { ... return err ... }
      c.tasks = nil
      return nil
  }
  \<close>
  The return of line 63 leaves the function before line 66: \<^verbatim>\<open>c.tasks\<close> is assigned
  only when the loop ran to its end.
\<close>

definition Chain_Run :: "'c \<Rightarrow> ('c, 'w, 'e) Chain \<Rightarrow> 'w \<Rightarrow> ('c, 'w, 'e) Chain_result" where
  "Chain_Run ctx c w =
     (case Chain_loop ctx (elems (Chain_tasks c)) 0 w of
        (Some err, w', ps) \<Rightarrow> \<lparr>returned = Some err, chain = c, world = w', called = ps\<rparr>
      | (None, w', ps) \<Rightarrow>
          \<lparr>returned = None, chain = c\<lparr>Chain_tasks := None\<rparr>, world = w', called = ps\<rparr>)"

section \<open>List\<close>

text \<open>\<^verbatim>\<open>type task struct { t Task; e ErrorHandler }\<close> and \<^verbatim>\<open>type List struct { tasks []task }\<close>\<close>

record ('c, 'w, 'e) task =
  task_t :: "('c, 'w, 'e) Task"
  task_e :: "('w, 'e) ErrorHandler"

record ('c, 'w, 'e) List =
  List_tasks :: "('c, 'w, 'e) task slice"

text \<open>
  \<^verbatim>\<open>func (l *List) Add(t Task, e ErrorHandler) { l.tasks = append(l.tasks, task{t: t, e: e}) }\<close>
\<close>

definition List_Add ::
  "('c, 'w, 'e) List \<Rightarrow> ('c, 'w, 'e) Task \<Rightarrow> ('w, 'e) ErrorHandler \<Rightarrow> ('c, 'w, 'e) List" where
  "List_Add l t e = l\<lparr>List_tasks := append_slice (List_tasks l) [\<lparr>task_t = t, task_e = e\<rparr>]\<rparr>"

subsection \<open>The spawned function\<close>

text \<open>
  Each iteration of \<^verbatim>\<open>List.Run\<close> starts a goroutine on the function literal of lines
  39 to 43, whose parameters \<^verbatim>\<open>task\<close> and \<^verbatim>\<open>handler\<close> are bound to \<^verbatim>\<open>tsk.t\<close> and
  \<^verbatim>\<open>tsk.e\<close> when the \<^verbatim>\<open>go\<close> statement is executed and which captures \<^verbatim>\<open>ctx\<close>:
  \<^verbatim>\<open>
  go func(task Task, handler ErrorHandler) {
      if err := task.Run(ctx); err != nil {
          handler(err)
      }
  }(tsk.t, tsk.e)
  \<close>
  A goroutine is at one of four places: \<open>Spawned\<close>, before line 40; \<open>Failing err\<close>,
  after \<^verbatim>\<open>task.Run(ctx)\<close> returned the non-nil \<open>err\<close> and before the call of line 41;
  \<open>Exited\<close>, after its function returned; \<open>Panicked\<close>, after the call of a nil
  \<^verbatim>\<open>handler\<close>.

  Two fields record what the goroutine did and are read by nothing: \<open>g_ret\<close> is
  \<open>Some r\<close> once \<^verbatim>\<open>task.Run(ctx)\<close> has returned \<open>r\<close>, and \<open>g_calls\<close> lists the
  arguments of the executed calls \<^verbatim>\<open>handler(err)\<close> of line 41, in order.
\<close>

datatype 'e pc = Spawned | Failing 'e | Exited | Panicked

record ('c, 'w, 'e) goroutine =
  g_ctx :: 'c
  g_task :: "('c, 'w, 'e) Task"
  g_handler :: "('w, 'e) ErrorHandler"
  g_pc :: "'e pc"
  g_ret :: "'e option option"
  g_calls :: "'e list"

text \<open>The \<^verbatim>\<open>go\<close> statement of line 39, for the element \<open>tsk\<close> of the range.\<close>

definition go :: "'c \<Rightarrow> ('c, 'w, 'e) task \<Rightarrow> ('c, 'w, 'e) goroutine" where
  "go ctx tsk =
     \<lparr>g_ctx = ctx, g_task = task_t tsk, g_handler = task_e tsk,
      g_pc = Spawned, g_ret = None, g_calls = []\<rparr>"

text \<open>
  The next action of a goroutine in the world \<open>w\<close>: from \<open>Spawned\<close> the call
  \<^verbatim>\<open>task.Run(ctx)\<close> and the test of line 40, from \<open>Failing err\<close> the call
  \<^verbatim>\<open>handler(err)\<close> of line 41, which panics when \<^verbatim>\<open>handler\<close> is nil. The body of a task
  and the body of a handler are each one action.
\<close>

definition goroutine_step ::
  "('c, 'w, 'e) goroutine \<Rightarrow> 'w \<Rightarrow> ('c, 'w, 'e) goroutine \<times> 'w" where
  "goroutine_step g w =
     (case g_pc g of
        Spawned \<Rightarrow>
          (case g_task g (g_ctx g) w of
             (None, w') \<Rightarrow> (g\<lparr>g_pc := Exited, g_ret := Some None\<rparr>, w')
           | (Some err, w') \<Rightarrow> (g\<lparr>g_pc := Failing err, g_ret := Some (Some err)\<rparr>, w'))
      | Failing err \<Rightarrow>
          (case g_handler g of
             None \<Rightarrow> (g\<lparr>g_pc := Panicked, g_calls := g_calls g @ [err]\<rparr>, w)
           | Some h \<Rightarrow> (g\<lparr>g_pc := Exited, g_calls := g_calls g @ [err]\<rparr>, h err w))
      | Exited \<Rightarrow> (g, w)
      | Panicked \<Rightarrow> (g, w))"

subsection \<open>The caller's side of \<^verbatim>\<open>List.Run\<close>\<close>

text \<open>
  \<^verbatim>\<open>
  func (l *List) Run(ctx context.Context) {
      for _, tsk := range l.tasks {
          go func(task Task, handler ErrorHandler) { ... }(tsk.t, tsk.e)
      }
      l.tasks = nil
  }
  \<close>
  The loop executes one \<^verbatim>\<open>go\<close> statement for each element of the range, in order.
  The function has no result: what a call leaves is the list and the goroutines it
  started, in the order of their start.
\<close>

fun List_loop :: "'c \<Rightarrow> ('c, 'w, 'e) task list \<Rightarrow> ('c, 'w, 'e) goroutine list" where
  "List_loop ctx [] = []"
| "List_loop ctx (tsk # rest) = go ctx tsk # List_loop ctx rest"

definition List_Run ::
  "'c \<Rightarrow> ('c, 'w, 'e) List \<Rightarrow> ('c, 'w, 'e) List \<times> ('c, 'w, 'e) goroutine list" where
  "List_Run ctx l = (l\<lparr>List_tasks := None\<rparr>, List_loop ctx (elems (List_tasks l)))"

subsection \<open>The caller and the goroutines, interleaved\<close>

text \<open>
  The goroutines run concurrently with the caller and with each other. A
  configuration holds the list \<^verbatim>\<open>*l\<close>, the place of the caller inside \<^verbatim>\<open>List.Run\<close>
  (\<open>Ranging rest\<close>: in the loop with the elements \<open>rest\<close> of the range still to
  visit; \<open>Returned\<close>: back in the caller), the goroutines started so far in the order
  of their start, the world, and whether the program has crashed: a panic that no
  goroutine recovers ends the whole Go program.
\<close>

datatype ('c, 'w, 'e) caller = Ranging "('c, 'w, 'e) task list" | Returned

record ('c, 'w, 'e) config =
  cfg_list :: "('c, 'w, 'e) List"
  cfg_caller :: "('c, 'w, 'e) caller"
  cfg_pool :: "('c, 'w, 'e) goroutine list"
  cfg_world :: 'w
  cfg_crashed :: bool

text \<open>The call \<^verbatim>\<open>l.Run(ctx)\<close> in the world \<open>w\<close>: the range expression is evaluated once.\<close>

definition List_Run_call :: "('c, 'w, 'e) List \<Rightarrow> 'w \<Rightarrow> ('c, 'w, 'e) config" where
  "List_Run_call l w =
     \<lparr>cfg_list = l, cfg_caller = Ranging (elems (List_tasks l)), cfg_pool = [],
      cfg_world = w, cfg_crashed = False\<rparr>"

text \<open>
  The caller's next action: one iteration of the loop (the \<^verbatim>\<open>go\<close> statement), or,
  the range exhausted, lines 45 and 46.
\<close>

definition List_Run_step :: "'c \<Rightarrow> ('c, 'w, 'e) config \<Rightarrow> ('c, 'w, 'e) config" where
  "List_Run_step ctx s =
     (case cfg_caller s of
        Ranging [] \<Rightarrow> s\<lparr>cfg_list := (cfg_list s)\<lparr>List_tasks := None\<rparr>, cfg_caller := Returned\<rparr>
      | Ranging (tsk # rest) \<Rightarrow>
          s\<lparr>cfg_caller := Ranging rest, cfg_pool := cfg_pool s @ [go ctx tsk]\<rparr>
      | Returned \<Rightarrow> s)"

text \<open>
  A schedule names, action by action, who moves next: the caller or the goroutine
  at a position of the pool. A choice that cannot move (a goroutine not yet started
  or already ended, the caller after its return) and every choice after a crash leave
  the configuration as it is, so the schedules cover every interleaving.
\<close>

datatype thread = Caller | Goroutine nat

definition goroutine_move :: "nat \<Rightarrow> ('c, 'w, 'e) config \<Rightarrow> ('c, 'w, 'e) config" where
  "goroutine_move i s =
     (if i < length (cfg_pool s) then
        (case goroutine_step (cfg_pool s ! i) (cfg_world s) of
           (g', w') \<Rightarrow>
             s\<lparr>cfg_pool := (cfg_pool s)[i := g'], cfg_world := w',
               cfg_crashed := (case g_pc g' of Panicked \<Rightarrow> True | _ \<Rightarrow> False)\<rparr>)
      else s)"

definition move :: "'c \<Rightarrow> thread \<Rightarrow> ('c, 'w, 'e) config \<Rightarrow> ('c, 'w, 'e) config" where
  "move ctx th s =
     (if cfg_crashed s then s
      else (case th of Caller \<Rightarrow> List_Run_step ctx s | Goroutine i \<Rightarrow> goroutine_move i s))"

fun exec :: "'c \<Rightarrow> thread list \<Rightarrow> ('c, 'w, 'e) config \<Rightarrow> ('c, 'w, 'e) config" where
  "exec ctx [] s = s"
| "exec ctx (th # sched) s = exec ctx sched (move ctx th s)"

subsection \<open>What holds in every configuration a call reaches\<close>

text \<open>The pair a goroutine was started on, and the elements the caller has yet to visit.\<close>

definition pair_of :: "('c, 'w, 'e) goroutine \<Rightarrow> ('c, 'w, 'e) task" where
  "pair_of g = \<lparr>task_t = g_task g, task_e = g_handler g\<rparr>"

fun remaining :: "('c, 'w, 'e) caller \<Rightarrow> ('c, 'w, 'e) task list" where
  "remaining (Ranging rest) = rest"
| "remaining Returned = []"

text \<open>
  The record of a goroutine agrees with its place: nothing is recorded before the task
  has returned; a non-nil error is recorded with no call while the call is pending and
  with the one call of that error once the goroutine has ended; a goroutine ends in a
  panic only on the call of a nil handler.
\<close>

definition goroutine_ok :: "('c, 'w, 'e) goroutine \<Rightarrow> bool" where
  "goroutine_ok g =
     (case g_pc g of
        Spawned \<Rightarrow> g_ret g = None \<and> g_calls g = []
      | Failing err \<Rightarrow> g_ret g = Some (Some err) \<and> g_calls g = []
      | Exited \<Rightarrow>
          g_ret g = Some None \<and> g_calls g = [] \<or>
          (\<exists>err. g_ret g = Some (Some err) \<and> g_calls g = [err] \<and> g_handler g \<noteq> None)
      | Panicked \<Rightarrow>
          (\<exists>err. g_ret g = Some (Some err) \<and> g_calls g = [err] \<and> g_handler g = None))"

definition reachable_inv :: "'c \<Rightarrow> ('c, 'w, 'e) List \<Rightarrow> ('c, 'w, 'e) config \<Rightarrow> bool" where
  "reachable_inv ctx l s \<longleftrightarrow>
     map pair_of (cfg_pool s) @ remaining (cfg_caller s) = elems (List_tasks l)
   \<and> (\<forall>g \<in> set (cfg_pool s). goroutine_ok g \<and> g_ctx g = ctx)
   \<and> cfg_list s = (case cfg_caller s of Ranging rest \<Rightarrow> l | Returned \<Rightarrow> l\<lparr>List_tasks := None\<rparr>)
   \<and> (cfg_crashed s \<longleftrightarrow> (\<exists>g \<in> set (cfg_pool s). g_pc g = Panicked))"

section \<open>The scenarios of the specification\<close>

text \<open>
  Concrete tasks and handlers over a world that is a log of names: a task appends its
  name and succeeds or fails with a message, a handler appends its name and the error
  it was given. The context is the unit value.
\<close>

definition succeed :: "string \<Rightarrow> (unit, string list, string) Task" where
  "succeed name ctx w = (None, w @ [name])"

definition fail :: "string \<Rightarrow> string \<Rightarrow> (unit, string list, string) Task" where
  "fail name msg ctx w = (Some msg, w @ [name])"

definition logging :: "string \<Rightarrow> (string list, string) ErrorHandler" where
  "logging name = Some (\<lambda>err w. w @ [name @ '':'' @ err])"

text \<open>Scenario A: a chain of three succeeding tasks, added to the zero value.\<close>

definition scenario_A :: "(unit, string list, string) Chain" where
  "scenario_A = Chain_Add \<lparr>Chain_tasks = None\<rparr> [succeed ''t1'', succeed ''t2'', succeed ''t3'']"

text \<open>Scenario B: a chain whose second task fails with \<open>''x''\<close>.\<close>

definition scenario_B :: "(unit, string list, string) Chain" where
  "scenario_B = Chain_Add \<lparr>Chain_tasks = None\<rparr> [succeed ''t1'', fail ''t2'' ''x'', succeed ''t3'']"

text \<open>
  Scenario C: a list of a succeeding task with the handler H1 and a task failing with
  \<open>''y''\<close> with the handler H2; and a schedule in which the first goroutine runs
  before the caller has returned.
\<close>

definition scenario_C :: "(unit, string list, string) List" where
  "scenario_C =
     List_Add (List_Add \<lparr>List_tasks = None\<rparr> (succeed ''t1'') (logging ''H1''))
       (fail ''t2'' ''y'') (logging ''H2'')"

definition schedule_C :: "thread list" where
  "schedule_C = [Caller, Goroutine 0, Caller, Caller, Goroutine 1, Goroutine 1]"

text \<open>A list whose only pair has a failing task and the nil handler.\<close>

definition scenario_nil :: "(unit, string list, string) List" where
  "scenario_nil = List_Add \<lparr>List_tasks = None\<rparr> (fail ''t'' ''y'') None"

section \<open>Properties of the chain loop\<close>

lemma Chain_loop_succeed:
  "length ws = Suc (length ts) \<Longrightarrow> ws ! 0 = w \<Longrightarrow>
   \<forall>i<length ts. (ts ! i) ctx (ws ! i) = (None, ws ! Suc i) \<Longrightarrow>
   Chain_loop ctx ts j w = (None, ws ! length ts, [j..<j + length ts])"
proof (induction ts arbitrary: ws w j)
  case Nil
  then show ?case by simp
next
  case (Cons tsk rest)
  from Cons.prems(1) obtain w0 ws' where ws: "ws = w0 # ws'"
    by (cases ws) auto
  from Cons.prems(3) have first: "tsk ctx (ws ! 0) = (None, ws ! Suc 0)"
    by auto
  have later: "\<forall>i<length rest. (rest ! i) ctx (ws' ! i) = (None, ws' ! Suc i)"
  proof (intro allI impI)
    fix i assume "i < length rest"
    then have "Suc i < length (tsk # rest)" by simp
    with Cons.prems(3) have "((tsk # rest) ! Suc i) ctx (ws ! Suc i) = (None, ws ! Suc (Suc i))"
      by blast
    then show "(rest ! i) ctx (ws' ! i) = (None, ws' ! Suc i)"
      by (simp add: ws)
  qed
  have len: "length ws' = Suc (length rest)"
    using Cons.prems(1) by (simp add: ws)
  have "Chain_loop ctx rest (Suc j) (ws' ! 0) = (None, ws' ! length rest, [Suc j..<Suc j + length rest])"
    by (rule Cons.IH [OF len refl later])
  with first Cons.prems(2) show ?case
    by (simp add: ws upt_rec)
qed

lemma Chain_loop_fail:
  "k < length ts \<Longrightarrow> length ws = Suc k \<Longrightarrow> ws ! 0 = w \<Longrightarrow>
   \<forall>i<k. (ts ! i) ctx (ws ! i) = (None, ws ! Suc i) \<Longrightarrow>
   (ts ! k) ctx (ws ! k) = (Some err, w') \<Longrightarrow>
   Chain_loop ctx ts j w = (Some err, w', [j..<j + Suc k])"
proof (induction ts arbitrary: ws w j k)
  case Nil
  then show ?case by simp
next
  case (Cons tsk rest)
  show ?case
  proof (cases k)
    case 0
    with Cons.prems show ?thesis by simp
  next
    case (Suc k')
    from Cons.prems(2) Suc obtain w0 ws' where ws: "ws = w0 # ws'"
      by (cases ws) auto
    from Cons.prems(4) Suc have first: "tsk ctx (ws ! 0) = (None, ws ! Suc 0)"
      by auto
    have later: "\<forall>i<k'. (rest ! i) ctx (ws' ! i) = (None, ws' ! Suc i)"
    proof (intro allI impI)
      fix i assume "i < k'"
      then have "Suc i < k" by (simp add: Suc)
      with Cons.prems(4) have "((tsk # rest) ! Suc i) ctx (ws ! Suc i) = (None, ws ! Suc (Suc i))"
        by blast
      then show "(rest ! i) ctx (ws' ! i) = (None, ws' ! Suc i)"
        by (simp add: ws)
    qed
    have len: "length ws' = Suc k'" and k': "k' < length rest"
      using Cons.prems(1,2) by (simp_all add: ws Suc)
    have last: "(rest ! k') ctx (ws' ! k') = (Some err, w')"
      using Cons.prems(5) by (simp add: ws Suc)
    have "Chain_loop ctx rest (Suc j) (ws' ! 0) = (Some err, w', [Suc j..<Suc j + Suc k'])"
      by (rule Cons.IH [OF k' len refl later last])
    with first Cons.prems(3) show ?thesis
      by (simp add: ws Suc upt_rec)
  qed
qed

section \<open>The invariant of the interleaved runs\<close>

lemma goroutine_step_frame:
  "g_task (fst (goroutine_step g w)) = g_task g"
  "g_handler (fst (goroutine_step g w)) = g_handler g"
  "g_ctx (fst (goroutine_step g w)) = g_ctx g"
  by (auto simp: goroutine_step_def split: pc.splits option.splits prod.splits)

lemma goroutine_step_ok:
  "goroutine_ok g \<Longrightarrow> goroutine_ok (fst (goroutine_step g w))"
  by (auto simp: goroutine_step_def goroutine_ok_def split: pc.splits option.splits prod.splits)

lemma pair_of_step: "pair_of (fst (goroutine_step g w)) = pair_of g"
  by (simp add: pair_of_def goroutine_step_frame)

lemma goroutine_ok_go:
  "goroutine_ok (go ctx tsk)" "g_ctx (go ctx tsk) = ctx" "pair_of (go ctx tsk) = tsk"
  "g_pc (go ctx tsk) = Spawned"
  by (simp_all add: goroutine_ok_def go_def pair_of_def)

lemma inv_call: "reachable_inv ctx l (List_Run_call l w)"
  by (simp add: reachable_inv_def List_Run_call_def)

lemma inv_List_Run_step:
  assumes "reachable_inv ctx l s"
  shows "reachable_inv ctx l (List_Run_step ctx s)"
proof (cases "cfg_caller s")
  case (Ranging rest)
  with assms show ?thesis
    by (cases rest) (auto simp: reachable_inv_def List_Run_step_def goroutine_ok_go)
next
  case Returned
  with assms show ?thesis by (simp add: List_Run_step_def)
qed

lemma inv_goroutine_move:
  assumes inv: "reachable_inv ctx l s" and live: "\<not> cfg_crashed s"
  shows "reachable_inv ctx l (goroutine_move i s)"
proof (cases "i < length (cfg_pool s)")
  case False
  with inv show ?thesis by (simp add: goroutine_move_def)
next
  case True
  define g where "g = cfg_pool s ! i"
  define g' where "g' = fst (goroutine_step g (cfg_world s))"
  define w' where "w' = snd (goroutine_step g (cfg_world s))"
  have mem: "g \<in> set (cfg_pool s)"
    using True by (simp add: g_def)
  have s': "goroutine_move i s =
      s\<lparr>cfg_pool := (cfg_pool s)[i := g'], cfg_world := w',
        cfg_crashed := (case g_pc g' of Panicked \<Rightarrow> True | _ \<Rightarrow> False)\<rparr>"
    using True by (simp add: goroutine_move_def g_def g'_def w'_def split: prod.splits)
  have pool: "map pair_of ((cfg_pool s)[i := g']) = map pair_of (cfg_pool s)"
    using True by (simp add: map_update g'_def pair_of_step g_def list_update_same_conv)
  have ok: "goroutine_ok g'" "g_ctx g' = ctx"
    using inv mem by (simp_all add: g'_def goroutine_step_ok goroutine_step_frame reachable_inv_def)
  have others: "\<forall>h \<in> set (cfg_pool s). g_pc h \<noteq> Panicked"
    using inv live by (auto simp: reachable_inv_def)
  have sub: "set ((cfg_pool s)[i := g']) \<subseteq> insert g' (set (cfg_pool s))"
    by (rule set_update_subset_insert)
  have g'_in: "g' \<in> set ((cfg_pool s)[i := g'])"
    using True by (simp add: set_update_memI)
  have crash: "(case g_pc g' of Panicked \<Rightarrow> True | _ \<Rightarrow> False)
      \<longleftrightarrow> (\<exists>h \<in> set ((cfg_pool s)[i := g']). g_pc h = Panicked)"
  proof (cases "g_pc g' = Panicked")
    case True
    with g'_in show ?thesis by auto
  next
    case False
    with others sub have "\<forall>h \<in> set ((cfg_pool s)[i := g']). g_pc h \<noteq> Panicked"
      by auto
    with False show ?thesis by (auto split: pc.splits)
  qed
  have all_ok: "\<forall>h \<in> set ((cfg_pool s)[i := g']). goroutine_ok h \<and> g_ctx h = ctx"
    using inv ok sub by (auto simp: reachable_inv_def)
  show ?thesis
    unfolding s' using inv pool all_ok crash by (simp add: reachable_inv_def)
qed

lemma inv_move: "reachable_inv ctx l s \<Longrightarrow> reachable_inv ctx l (move ctx th s)"
  by (cases th) (simp_all add: move_def inv_List_Run_step inv_goroutine_move)

lemma inv_exec: "reachable_inv ctx l s \<Longrightarrow> reachable_inv ctx l (exec ctx sched s)"
  by (induction sched arbitrary: s) (simp_all add: inv_move)

lemma inv_reachable: "reachable_inv ctx l (exec ctx sched (List_Run_call l w))"
  by (rule inv_exec [OF inv_call])

lemma inv_nth:
  assumes "reachable_inv ctx l s" and "i < length (cfg_pool s)"
  shows "goroutine_ok (cfg_pool s ! i)" and "g_ctx (cfg_pool s ! i) = ctx"
    and "pair_of (cfg_pool s ! i) = elems (List_tasks l) ! i"
proof -
  from assms have "cfg_pool s ! i \<in> set (cfg_pool s)" by simp
  with assms(1) show "goroutine_ok (cfg_pool s ! i)" and "g_ctx (cfg_pool s ! i) = ctx"
    by (simp_all add: reachable_inv_def)
  from assms(1) have "map pair_of (cfg_pool s) @ remaining (cfg_caller s) = elems (List_tasks l)"
    by (simp add: reachable_inv_def)
  then have "elems (List_tasks l) ! i = (map pair_of (cfg_pool s) @ remaining (cfg_caller s)) ! i"
    by simp
  also have "\<dots> = pair_of (cfg_pool s ! i)"
    using assms(2) by (simp add: nth_append)
  finally show "pair_of (cfg_pool s ! i) = elems (List_tasks l) ! i" by simp
qed

lemma pair_of_sel: "task_t (pair_of g) = g_task g" "task_e (pair_of g) = g_handler g"
  by (simp_all add: pair_of_def)

lemma caller_alone:
  "\<not> cfg_crashed s \<Longrightarrow> cfg_caller s = Ranging rest \<Longrightarrow>
   exec ctx (replicate (Suc (length rest)) Caller) s =
     s\<lparr>cfg_list := (cfg_list s)\<lparr>List_tasks := None\<rparr>, cfg_caller := Returned,
       cfg_pool := cfg_pool s @ List_loop ctx rest\<rparr>"
proof (induction rest arbitrary: s)
  case Nil
  then show ?case by (simp add: move_def List_Run_step_def)
next
  case (Cons tsk rest)
  let ?s = "s\<lparr>cfg_caller := Ranging rest, cfg_pool := cfg_pool s @ [go ctx tsk]\<rparr>"
  from Cons.prems have step: "move ctx Caller s = ?s"
    by (simp add: move_def List_Run_step_def)
  have "exec ctx (replicate (Suc (length rest)) Caller) ?s =
     ?s\<lparr>cfg_list := (cfg_list ?s)\<lparr>List_tasks := None\<rparr>, cfg_caller := Returned,
       cfg_pool := cfg_pool ?s @ List_loop ctx rest\<rparr>"
    using Cons.prems by (intro Cons.IH) simp_all
  with step show ?case by simp
qed

lemma List_Run_alone:
  "exec ctx (replicate (Suc (len (List_tasks l))) Caller) (List_Run_call l w) =
     \<lparr>cfg_list = fst (List_Run ctx l), cfg_caller = Returned, cfg_pool = snd (List_Run ctx l),
      cfg_world = w, cfg_crashed = False\<rparr>"
proof -
  have "exec ctx (replicate (Suc (length (elems (List_tasks l)))) Caller) (List_Run_call l w) =
     (List_Run_call l w)\<lparr>cfg_list := (cfg_list (List_Run_call l w))\<lparr>List_tasks := None\<rparr>,
       cfg_caller := Returned,
       cfg_pool := cfg_pool (List_Run_call l w) @ List_loop ctx (elems (List_tasks l))\<rparr>"
    by (rule caller_alone) (simp_all add: List_Run_call_def)
  then show ?thesis
    by (simp add: List_Run_call_def List_Run_def len_def)
qed

lemma caller_returns:
  assumes "\<not> cfg_crashed s"
  shows "exec ctx (replicate (Suc (length (remaining (cfg_caller s)))) Caller) s =
     (case cfg_caller s of
        Ranging rest \<Rightarrow>
          s\<lparr>cfg_list := (cfg_list s)\<lparr>List_tasks := None\<rparr>, cfg_caller := Returned,
            cfg_pool := cfg_pool s @ List_loop ctx rest\<rparr>
      | Returned \<Rightarrow> s)"
proof (cases "cfg_caller s")
  case (Ranging rest)
  with caller_alone [OF assms this] show ?thesis by simp
next
  case Returned
  then show ?thesis by (simp add: move_def List_Run_step_def)
qed

lemma length_List_loop: "length (List_loop ctx ts) = length ts"
  by (induction ts) simp_all

lemma pair_of_List_loop: "map pair_of (List_loop ctx ts) = ts"
  by (induction ts) (simp_all add: goroutine_ok_go)

lemma List_loop_Spawned: "g \<in> set (List_loop ctx ts) \<Longrightarrow> g_pc g = Spawned"
  by (induction ts) (auto simp: goroutine_ok_go)

section \<open>The scenarios, evaluated\<close>

lemmas scen = scenario_A_def scenario_B_def scenario_C_def scenario_nil_def schedule_C_def
  succeed_def fail_def logging_def Chain_Add_def List_Add_def append_slice_def elems_def len_def

lemmas cfg = move_def List_Run_step_def List_Run_call_def goroutine_move_def
  goroutine_step_def go_def

lemma run_C:
  "exec () schedule_C (List_Run_call scenario_C []) =
     \<lparr>cfg_list = \<lparr>List_tasks = None\<rparr>, cfg_caller = Returned,
      cfg_pool =
        [\<lparr>g_ctx = (), g_task = succeed ''t1'', g_handler = logging ''H1'', g_pc = Exited,
          g_ret = Some None, g_calls = []\<rparr>,
         \<lparr>g_ctx = (), g_task = fail ''t2'' ''y'', g_handler = logging ''H2'', g_pc = Exited,
          g_ret = Some (Some ''y''), g_calls = [''y'']\<rparr>],
      cfg_world = [''t1'', ''t2'', ''H2:y''], cfg_crashed = False\<rparr>"
  by (simp add: scen cfg)

lemma run_C_early:
  "exec () [Caller, Goroutine 0] (List_Run_call scenario_C []) =
     \<lparr>cfg_list = scenario_C,
      cfg_caller = Ranging [\<lparr>task_t = fail ''t2'' ''y'', task_e = logging ''H2''\<rparr>],
      cfg_pool =
        [\<lparr>g_ctx = (), g_task = succeed ''t1'', g_handler = logging ''H1'', g_pc = Exited,
          g_ret = Some None, g_calls = []\<rparr>],
      cfg_world = [''t1''], cfg_crashed = False\<rparr>"
  by (simp add: scen cfg)

lemma run_C_unstarted:
  "exec () [Caller, Caller, Caller] (List_Run_call scenario_C []) =
     \<lparr>cfg_list = \<lparr>List_tasks = None\<rparr>, cfg_caller = Returned,
      cfg_pool =
        [\<lparr>g_ctx = (), g_task = succeed ''t1'', g_handler = logging ''H1'', g_pc = Spawned,
          g_ret = None, g_calls = []\<rparr>,
         \<lparr>g_ctx = (), g_task = fail ''t2'' ''y'', g_handler = logging ''H2'', g_pc = Spawned,
          g_ret = None, g_calls = []\<rparr>],
      cfg_world = [], cfg_crashed = False\<rparr>"
  by (simp add: scen cfg)

lemma run_nil:
  "exec () [Caller, Goroutine 0] (List_Run_call scenario_nil []) =
     \<lparr>cfg_list = scenario_nil, cfg_caller = Ranging [],
      cfg_pool =
        [\<lparr>g_ctx = (), g_task = fail ''t'' ''y'', g_handler = None, g_pc = Failing ''y'',
          g_ret = Some (Some ''y''), g_calls = []\<rparr>],
      cfg_world = [''t''], cfg_crashed = False\<rparr>"
  by (simp add: scen cfg)

lemma exec_idle:
  "cfg_pool s = [] \<Longrightarrow> cfg_world s = w \<Longrightarrow> \<not> cfg_crashed s \<Longrightarrow>
   remaining (cfg_caller s) = [] \<Longrightarrow>
   cfg_pool (exec ctx sched s) = [] \<and> cfg_world (exec ctx sched s) = w
     \<and> \<not> cfg_crashed (exec ctx sched s)"
proof (induction sched arbitrary: s)
  case Nil
  then show ?case by simp
next
  case (Cons th sched)
  have "cfg_pool (move ctx th s) = [] \<and> cfg_world (move ctx th s) = w
      \<and> \<not> cfg_crashed (move ctx th s) \<and> remaining (cfg_caller (move ctx th s)) = []"
    using Cons.prems
    by (cases th; cases "cfg_caller s") (auto simp: move_def List_Run_step_def goroutine_move_def)
  then show ?case
    using Cons.IH by simp
qed

lemma exec_empty:
  assumes "elems (List_tasks l) = []"
  shows "cfg_pool (exec ctx sched (List_Run_call l w)) = []
       \<and> cfg_world (exec ctx sched (List_Run_call l w)) = w
       \<and> \<not> cfg_crashed (exec ctx sched (List_Run_call l w))"
  by (rule exec_idle) (simp_all add: List_Run_call_def assms)

lemma Chain_Run_cleared_iff:
  "Chain_tasks (chain (Chain_Run ctx c w)) =
     (if returned (Chain_Run ctx c w) = None then None else Chain_tasks c)"
  by (simp add: Chain_Run_def split: prod.splits option.splits)

section \<open>The claims about Chain\<close>

text \<open>
  Claim C1: after \<^verbatim>\<open>Chain.Run\<close> has completed, with or without an error, the task
  sequence is cleared, so that a second \<^verbatim>\<open>Run\<close> with no \<^verbatim>\<open>Add\<close> in between executes no
  task. The comment on the function says the same (when Run() completes, c is
  reset), but the \<^verbatim>\<open>return err\<close> of line 63 leaves before the assignment of line 66.
  On scenario B the first \<^verbatim>\<open>Run\<close> returns \<open>''x''\<close> and the chain still holds its three
  tasks; a second \<^verbatim>\<open>Run\<close> on what the first one left calls the tasks at positions 0
  and 1 again. (\<open>Chain_Run_cleared_iff\<close> above is the general fact: the sequence is
  cleared exactly when \<^verbatim>\<open>Run\<close> returns nil.)
\<close>

theorem Chain_Run_error_leaves_tasks:
  "returned (Chain_Run () scenario_B []) = Some ''x''
 \<and> len (Chain_tasks (chain (Chain_Run () scenario_B []))) = 3
 \<and> called (Chain_Run () (chain (Chain_Run () scenario_B [])) (world (Chain_Run () scenario_B [])))
     = [0, 1]"
  by (simp add: scen Chain_Run_def)

text \<open>
  Claim C2: when the task at position \<open>k\<close> (counted from 0) is the first whose
  \<^verbatim>\<open>Run\<close> returns a non-nil error, \<^verbatim>\<open>Chain.Run\<close> calls the tasks at positions
  \<open>0, \<dots>, k\<close> once each, in this order, calls no later task, and returns the error of
  task \<open>k\<close>. The worlds \<open>ws\<close> are the ones the tasks are run in: the first is the
  world of the call, each task before \<open>k\<close> returns nil and leaves the next one, and task
  \<open>k\<close> returns \<open>err\<close> in the last one; \<^verbatim>\<open>Run\<close> leaves the world task \<open>k\<close> left.
\<close>

theorem Chain_Run_first_failure:
  assumes "k < len (Chain_tasks c)"
    and "length ws = Suc k" and "ws ! 0 = w"
    and "\<forall>i<k. (elems (Chain_tasks c) ! i) ctx (ws ! i) = (None, ws ! Suc i)"
    and "(elems (Chain_tasks c) ! k) ctx (ws ! k) = (Some err, w')"
  shows "returned (Chain_Run ctx c w) = Some err
       \<and> called (Chain_Run ctx c w) = [0..<Suc k]
       \<and> world (Chain_Run ctx c w) = w'"
proof -
  from assms(1) have "k < length (elems (Chain_tasks c))"
    by (simp add: len_def)
  from Chain_loop_fail [OF this assms(2-5), of 0]
  show ?thesis by (simp add: Chain_Run_def)
qed

theorem Chain_Run_first_failure_witness:
  "1 < len (Chain_tasks scenario_B)
 \<and> (elems (Chain_tasks scenario_B) ! 0) () [] = (None, [''t1''])
 \<and> (elems (Chain_tasks scenario_B) ! 1) () [''t1''] = (Some ''x'', [''t1'', ''t2''])
 \<and> returned (Chain_Run () scenario_B []) = Some ''x''
 \<and> called (Chain_Run () scenario_B []) = [0, 1]
 \<and> world (Chain_Run () scenario_B []) = [''t1'', ''t2'']"
proof -
  have h1: "1 < len (Chain_tasks scenario_B)"
    by (simp add: scen)
  have h2: "length [[], [''t1'']] = Suc 1" and h3: "[[], [''t1'']] ! 0 = ([] :: string list)"
    by simp_all
  have h4: "\<forall>i<1. (elems (Chain_tasks scenario_B) ! i) () ([[], [''t1'']] ! i)
      = (None, [[], [''t1'']] ! Suc i)"
    by (simp add: scen)
  have h5: "(elems (Chain_tasks scenario_B) ! 1) () ([[], [''t1'']] ! 1)
      = (Some ''x'', [''t1'', ''t2''])"
    by (simp add: scen)
  from Chain_Run_first_failure [OF h1 h2 h3 h4 h5] h1 h4 h5
  show ?thesis by (simp add: upt_rec)
qed

text \<open>
  Claim C3: when no task returns a non-nil error, \<^verbatim>\<open>Chain.Run\<close> calls every
  registered task once, in registration order, and returns nil. The worlds \<open>ws\<close> are
  as in C2: each task returns nil in the world its predecessor left.
\<close>

theorem Chain_Run_no_failure:
  assumes "length ws = Suc (len (Chain_tasks c))" and "ws ! 0 = w"
    and "\<forall>i<len (Chain_tasks c). (elems (Chain_tasks c) ! i) ctx (ws ! i) = (None, ws ! Suc i)"
  shows "returned (Chain_Run ctx c w) = None
       \<and> called (Chain_Run ctx c w) = [0..<len (Chain_tasks c)]
       \<and> world (Chain_Run ctx c w) = ws ! len (Chain_tasks c)"
proof -
  from Chain_loop_succeed [OF assms(1) [unfolded len_def] assms(2) assms(3) [unfolded len_def], of 0]
  show ?thesis by (simp add: Chain_Run_def len_def)
qed

theorem Chain_Run_no_failure_witness:
  "len (Chain_tasks scenario_A) = 3
 \<and> (elems (Chain_tasks scenario_A) ! 0) () [] = (None, [''t1''])
 \<and> (elems (Chain_tasks scenario_A) ! 1) () [''t1''] = (None, [''t1'', ''t2''])
 \<and> (elems (Chain_tasks scenario_A) ! 2) () [''t1'', ''t2''] = (None, [''t1'', ''t2'', ''t3''])
 \<and> returned (Chain_Run () scenario_A []) = None
 \<and> called (Chain_Run () scenario_A []) = [0, 1, 2]
 \<and> world (Chain_Run () scenario_A []) = [''t1'', ''t2'', ''t3'']"
proof -
  let ?ws = "[[], [''t1''], [''t1'', ''t2''], [''t1'', ''t2'', ''t3'']]"
  have n: "len (Chain_tasks scenario_A) = 3"
    by (simp add: scen)
  have h1: "length ?ws = Suc (len (Chain_tasks scenario_A))" and h2: "?ws ! 0 = ([] :: string list)"
    by (simp_all add: n)
  have t0: "(elems (Chain_tasks scenario_A) ! 0) () [] = (None, [''t1''])"
    and t1: "(elems (Chain_tasks scenario_A) ! 1) () [''t1''] = (None, [''t1'', ''t2''])"
    and t2: "(elems (Chain_tasks scenario_A) ! 2) () [''t1'', ''t2'']
      = (None, [''t1'', ''t2'', ''t3''])"
    by (simp_all add: scen)
  have h3: "\<forall>i<len (Chain_tasks scenario_A).
      (elems (Chain_tasks scenario_A) ! i) () (?ws ! i) = (None, ?ws ! Suc i)"
    unfolding n using t0 t1 t2 by (simp add: numeral_3_eq_3 less_Suc_eq numeral_2_eq_2)
  from Chain_Run_no_failure [OF h1 h2 h3] n t0 t1 t2
  show ?thesis by (simp add: upt_rec)
qed

section \<open>The claims about List\<close>



text \<open>
  Claim C5: \<^verbatim>\<open>List.Run\<close> clears the task sequence before it returns, and returns
  without waiting for a spawned execution; it has no result. In every configuration
  \<open>s\<close> reached under any schedule, the sequence is nil once the caller has returned;
  and whatever the goroutines have done so far, as long as none has crashed the
  program, the caller alone, in one action for each element still to visit and one
  more, returns with the sequence cleared, while no goroutine moves: the world and the
  goroutines already started are as they were. In particular the caller can run from
  the call to its return before any goroutine has moved, and what it leaves then is
  what \<open>List_Run\<close> computes: the cleared list and the goroutines, none of which has
  started its task. That \<^verbatim>\<open>Run\<close> has no result is its signature: \<open>List_Run\<close> yields
  the list and the goroutines only.
\<close>

theorem List_Run_returns_without_waiting:
  assumes "s = exec ctx sched (List_Run_call l w)"
    and "s' = exec ctx (replicate (Suc (length (remaining (cfg_caller s)))) Caller) s"
  shows "(cfg_caller s = Returned \<longrightarrow> List_tasks (cfg_list s) = None)
       \<and> (\<not> cfg_crashed s \<longrightarrow>
            cfg_caller s' = Returned \<and> List_tasks (cfg_list s') = None
          \<and> cfg_world s' = cfg_world s
          \<and> take (length (cfg_pool s)) (cfg_pool s') = cfg_pool s)
       \<and> exec ctx (replicate (Suc (len (List_tasks l))) Caller) (List_Run_call l w) =
           \<lparr>cfg_list = fst (List_Run ctx l), cfg_caller = Returned,
            cfg_pool = snd (List_Run ctx l), cfg_world = w, cfg_crashed = False\<rparr>
       \<and> List_tasks (fst (List_Run ctx l)) = None
       \<and> (\<forall>g \<in> set (snd (List_Run ctx l)). g_pc g = Spawned)"
proof -
  have inv: "reachable_inv ctx l s"
    unfolding assms(1) by (rule inv_reachable)
  have "List_tasks (fst (List_Run ctx l)) = None"
    and "\<forall>g \<in> set (snd (List_Run ctx l)). g_pc g = Spawned"
    by (simp_all add: List_Run_def List_loop_Spawned)
  moreover note List_Run_alone [of ctx l w]
  moreover from inv have "cfg_caller s = Returned \<longrightarrow> List_tasks (cfg_list s) = None"
    by (auto simp: reachable_inv_def)
  moreover have "\<not> cfg_crashed s \<longrightarrow>
            cfg_caller s' = Returned \<and> List_tasks (cfg_list s') = None
          \<and> cfg_world s' = cfg_world s
          \<and> take (length (cfg_pool s)) (cfg_pool s') = cfg_pool s"
  proof
    assume "\<not> cfg_crashed s"
    then have s': "s' = (case cfg_caller s of
        Ranging rest \<Rightarrow>
          s\<lparr>cfg_list := (cfg_list s)\<lparr>List_tasks := None\<rparr>, cfg_caller := Returned,
            cfg_pool := cfg_pool s @ List_loop ctx rest\<rparr>
      | Returned \<Rightarrow> s)"
      unfolding assms(2) by (rule caller_returns)
    show "cfg_caller s' = Returned \<and> List_tasks (cfg_list s') = None
          \<and> cfg_world s' = cfg_world s
          \<and> take (length (cfg_pool s)) (cfg_pool s') = cfg_pool s"
    proof (cases "cfg_caller s")
      case (Ranging rest)
      then show ?thesis by (simp add: s')
    next
      case Returned
      with inv show ?thesis by (simp add: s' reachable_inv_def)
    qed
  qed
  ultimately show ?thesis by blast
qed

theorem List_Run_returns_without_waiting_witness:
  "cfg_caller (exec () schedule_C (List_Run_call scenario_C [])) = Returned
 \<and> List_tasks (cfg_list (exec () schedule_C (List_Run_call scenario_C []))) = None
 \<and> \<not> cfg_crashed (exec () [Caller, Goroutine 0] (List_Run_call scenario_C []))
 \<and> length (remaining (cfg_caller (exec () [Caller, Goroutine 0] (List_Run_call scenario_C [])))) = 1
 \<and> cfg_caller (exec () [Caller, Caller]
      (exec () [Caller, Goroutine 0] (List_Run_call scenario_C []))) = Returned
 \<and> List_tasks (cfg_list (exec () [Caller, Caller]
      (exec () [Caller, Goroutine 0] (List_Run_call scenario_C [])))) = None
 \<and> cfg_world (exec () [Caller, Caller]
      (exec () [Caller, Goroutine 0] (List_Run_call scenario_C []))) = [''t1'']
 \<and> g_pc (cfg_pool (exec () [Caller, Caller]
      (exec () [Caller, Goroutine 0] (List_Run_call scenario_C []))) ! 1) = Spawned
 \<and> length (snd (List_Run () scenario_C)) = 2"
proof -
  have two: "length (snd (List_Run () scenario_C)) = 2"
    by (simp add: scen List_Run_def)
  have n: "length (remaining (cfg_caller (exec () [Caller, Goroutine 0] (List_Run_call scenario_C [])))) = 1"
    unfolding run_C_early by simp
  have live: "\<not> cfg_crashed (exec () [Caller, Goroutine 0] (List_Run_call scenario_C []))"
    unfolding run_C_early by simp
  have late: "exec () [Caller, Caller] (exec () [Caller, Goroutine 0] (List_Run_call scenario_C []))
    = \<lparr>cfg_list = \<lparr>List_tasks = None\<rparr>, cfg_caller = Returned,
      cfg_pool =
        [\<lparr>g_ctx = (), g_task = succeed ''t1'', g_handler = logging ''H1'', g_pc = Exited,
          g_ret = Some None, g_calls = []\<rparr>,
         \<lparr>g_ctx = (), g_task = fail ''t2'' ''y'', g_handler = logging ''H2'', g_pc = Spawned,
          g_ret = None, g_calls = []\<rparr>],
      cfg_world = [''t1''], cfg_crashed = False\<rparr>"
    unfolding run_C_early by (simp add: scen cfg)
  from List_Run_returns_without_waiting [OF refl refl, of "()" schedule_C scenario_C "[]"]
    List_Run_returns_without_waiting [OF refl refl, of "()" "[Caller, Goroutine 0]" scenario_C "[]"]
    n live two
  show ?thesis unfolding late run_C by simp
qed

text \<open>
  Claim C6: with \<open>N\<close> registered pairs \<^verbatim>\<open>List.Run\<close> launches exactly \<open>N\<close> executions,
  one for each pair and in registration order, and the number of registered tasks is 0
  once it has returned, whether or not the executions have finished. Under every
  schedule the goroutines started so far are those of an initial segment of the
  registered pairs, in their order; once the caller has returned there is one for
  each pair and the sequence has length 0. The same is read off \<open>List_Run\<close>: it
  yields one goroutine for each pair, in order, and a list of length 0.
\<close>

theorem List_Run_launches_each_pair:
  assumes "s = exec ctx sched (List_Run_call l w)"
  shows "map pair_of (cfg_pool s) = take (length (cfg_pool s)) (elems (List_tasks l))
       \<and> (cfg_caller s = Returned \<longrightarrow>
            length (cfg_pool s) = len (List_tasks l)
          \<and> map pair_of (cfg_pool s) = elems (List_tasks l)
          \<and> len (List_tasks (cfg_list s)) = 0)
       \<and> length (snd (List_Run ctx l)) = len (List_tasks l)
       \<and> map pair_of (snd (List_Run ctx l)) = elems (List_tasks l)
       \<and> len (List_tasks (fst (List_Run ctx l))) = 0"
proof -
  have big: "length (snd (List_Run ctx l)) = len (List_tasks l)"
    "map pair_of (snd (List_Run ctx l)) = elems (List_tasks l)"
    "len (List_tasks (fst (List_Run ctx l))) = 0"
    by (simp_all add: List_Run_def length_List_loop pair_of_List_loop len_def)
      (simp add: elems_def)
  have inv: "reachable_inv ctx l s"
    unfolding assms(1) by (rule inv_reachable)
  then have eq: "map pair_of (cfg_pool s) @ remaining (cfg_caller s) = elems (List_tasks l)"
    by (simp add: reachable_inv_def)
  have "take (length (cfg_pool s)) (map pair_of (cfg_pool s) @ remaining (cfg_caller s))
      = map pair_of (cfg_pool s)"
    by simp
  then have prefix: "map pair_of (cfg_pool s) = take (length (cfg_pool s)) (elems (List_tasks l))"
    by (simp only: eq)
  have "cfg_caller s = Returned \<longrightarrow>
            length (cfg_pool s) = len (List_tasks l)
          \<and> map pair_of (cfg_pool s) = elems (List_tasks l)
          \<and> len (List_tasks (cfg_list s)) = 0"
  proof
    assume ret: "cfg_caller s = Returned"
    with eq have all: "map pair_of (cfg_pool s) = elems (List_tasks l)" by simp
    then have "length (cfg_pool s) = len (List_tasks l)"
      by (metis len_def length_map)
    moreover from inv ret have "len (List_tasks (cfg_list s)) = 0"
      by (simp add: reachable_inv_def len_def elems_def)
    ultimately show "length (cfg_pool s) = len (List_tasks l)
          \<and> map pair_of (cfg_pool s) = elems (List_tasks l)
          \<and> len (List_tasks (cfg_list s)) = 0"
      using all by simp
  qed
  with prefix big show ?thesis by blast
qed

theorem List_Run_launches_each_pair_witness:
  "cfg_caller (exec () schedule_C (List_Run_call scenario_C [])) = Returned
 \<and> len (List_tasks scenario_C) = 2
 \<and> length (cfg_pool (exec () schedule_C (List_Run_call scenario_C []))) = 2
 \<and> len (List_tasks (cfg_list (exec () schedule_C (List_Run_call scenario_C [])))) = 0
 \<and> g_pc (cfg_pool (exec () schedule_C (List_Run_call scenario_C [])) ! 1) = Exited
 \<and> cfg_caller (exec () [Caller, Caller, Caller] (List_Run_call scenario_C [])) = Returned
 \<and> length (cfg_pool (exec () [Caller, Caller, Caller] (List_Run_call scenario_C []))) = 2
 \<and> len (List_tasks (cfg_list (exec () [Caller, Caller, Caller] (List_Run_call scenario_C [])))) = 0
 \<and> g_pc (cfg_pool (exec () [Caller, Caller, Caller] (List_Run_call scenario_C [])) ! 1) = Spawned"
proof -
  have n: "len (List_tasks scenario_C) = 2"
    by (simp add: scen)
  from List_Run_launches_each_pair [OF refl, of "()" schedule_C scenario_C "[]"]
    List_Run_launches_each_pair [OF refl, of "()" "[Caller, Caller, Caller]" scenario_C "[]"] n
  show ?thesis unfolding run_C run_C_unstarted by simp
qed

text \<open>
  Claim C10: when the handler of a pair is nil and the task of the pair returns a
  non-nil error, the spawned execution calls the nil handler and panics; a nil handler
  is safe only when its task returns nil. For the goroutine \<open>g\<close> of a pair with the
  nil handler, in every configuration reached: after the task returned nil the
  goroutine has exited; after it returned a non-nil error the goroutine is about to
  call the handler or has panicked; when the call is pending and the program has not
  crashed, the next action of the goroutine is that call, which panics and crashes the
  program; and a goroutine that has panicked has crashed the program.
\<close>

theorem List_Run_nil_handler_panics:
  assumes "s = exec ctx sched (List_Run_call l w)"
    and "i < length (cfg_pool s)" and "g = cfg_pool s ! i"
    and "task_e (elems (List_tasks l) ! i) = None"
  shows "(g_ret g = Some None \<longrightarrow> g_pc g = Exited)
       \<and> (\<forall>err. g_ret g = Some (Some err) \<longrightarrow> g_pc g = Failing err \<or> g_pc g = Panicked)
       \<and> (\<forall>err. g_pc g = Failing err \<and> \<not> cfg_crashed s \<longrightarrow>
            g_pc (cfg_pool (move ctx (Goroutine i) s) ! i) = Panicked
          \<and> g_calls (cfg_pool (move ctx (Goroutine i) s) ! i) = [err]
          \<and> cfg_crashed (move ctx (Goroutine i) s))
       \<and> (g_pc g = Panicked \<longrightarrow> cfg_crashed s)"
proof -
  have inv: "reachable_inv ctx l s"
    unfolding assms(1) by (rule inv_reachable)
  have ok: "goroutine_ok g" and pair: "pair_of g = elems (List_tasks l) ! i"
    unfolding assms(3) by (rule inv_nth [OF inv assms(2)])+
  have nil: "g_handler g = None"
    using pair_of_sel(2) [of g] by (simp add: pair assms(4))
  from ok have "g_ret g = Some None \<longrightarrow> g_pc g = Exited"
    by (auto simp: goroutine_ok_def split: pc.splits)
  moreover from ok nil have "\<forall>err. g_ret g = Some (Some err) \<longrightarrow> g_pc g = Failing err \<or> g_pc g = Panicked"
    by (auto simp: goroutine_ok_def split: pc.splits)
  moreover have "\<forall>err. g_pc g = Failing err \<and> \<not> cfg_crashed s \<longrightarrow>
            g_pc (cfg_pool (move ctx (Goroutine i) s) ! i) = Panicked
          \<and> g_calls (cfg_pool (move ctx (Goroutine i) s) ! i) = [err]
          \<and> cfg_crashed (move ctx (Goroutine i) s)"
    using ok nil assms(2) assms(3)
    by (auto simp: move_def goroutine_move_def goroutine_step_def goroutine_ok_def)
  moreover have "g_pc g = Panicked \<longrightarrow> cfg_crashed s"
    using inv assms(2) assms(3) by (auto simp: reachable_inv_def)
  ultimately show ?thesis by blast
qed

theorem List_Run_nil_handler_panics_witness:
  "task_e (elems (List_tasks scenario_nil) ! 0) = None
 \<and> 0 < length (cfg_pool (exec () [Caller, Goroutine 0] (List_Run_call scenario_nil [])))
 \<and> g_ret (cfg_pool (exec () [Caller, Goroutine 0] (List_Run_call scenario_nil [])) ! 0)
      = Some (Some ''y'')
 \<and> g_pc (cfg_pool (exec () [Caller, Goroutine 0] (List_Run_call scenario_nil [])) ! 0)
      = Failing ''y''
 \<and> \<not> cfg_crashed (exec () [Caller, Goroutine 0] (List_Run_call scenario_nil []))
 \<and> g_pc (cfg_pool (move () (Goroutine 0)
      (exec () [Caller, Goroutine 0] (List_Run_call scenario_nil []))) ! 0) = Panicked
 \<and> g_calls (cfg_pool (move () (Goroutine 0)
      (exec () [Caller, Goroutine 0] (List_Run_call scenario_nil []))) ! 0) = [''y'']
 \<and> cfg_crashed (move () (Goroutine 0)
      (exec () [Caller, Goroutine 0] (List_Run_call scenario_nil [])))"
proof -
  have h: "0 < length (cfg_pool (exec () [Caller, Goroutine 0] (List_Run_call scenario_nil [])))"
    unfolding run_nil by simp
  have nil: "task_e (elems (List_tasks scenario_nil) ! 0) = None"
    by (simp add: scen)
  from List_Run_nil_handler_panics [OF refl h refl nil] nil
  show ?thesis unfolding run_nil by (simp add: cfg)
qed

section \<open>The claims about both runners and about Func\<close>

text \<open>
  Claim C7: on a list and on a chain with no registered task \<^verbatim>\<open>Run\<close> is a no-op. For
  the list: no goroutine is started, the first action of the caller is its return, and
  under every schedule the pool stays empty and the world unchanged. For the chain:
  \<^verbatim>\<open>Run\<close> returns nil, calls no task and leaves the world unchanged. Both leave a
  sequence of length 0.
\<close>

theorem Run_empty_is_no_op:
  assumes "len (List_tasks l) = 0" and "len (Chain_tasks c) = 0"
  shows "snd (List_Run ctx l) = []
       \<and> len (List_tasks (fst (List_Run ctx l))) = 0
       \<and> exec ctx [Caller] (List_Run_call l w) =
           \<lparr>cfg_list = l\<lparr>List_tasks := None\<rparr>, cfg_caller = Returned, cfg_pool = [],
            cfg_world = w, cfg_crashed = False\<rparr>
       \<and> (\<forall>sched. cfg_pool (exec ctx sched (List_Run_call l w)) = []
            \<and> cfg_world (exec ctx sched (List_Run_call l w)) = w)
       \<and> Chain_Run ctx c w =
           \<lparr>returned = None, chain = c\<lparr>Chain_tasks := None\<rparr>, world = w, called = []\<rparr>"
proof -
  from assms have l: "elems (List_tasks l) = []" and c: "elems (Chain_tasks c) = []"
    by (simp_all add: len_def)
  have "snd (List_Run ctx l) = []"
    by (simp add: List_Run_def l)
  moreover have "len (List_tasks (fst (List_Run ctx l))) = 0"
    by (simp add: List_Run_def len_def elems_def)
  moreover have "exec ctx [Caller] (List_Run_call l w) =
           \<lparr>cfg_list = l\<lparr>List_tasks := None\<rparr>, cfg_caller = Returned, cfg_pool = [],
            cfg_world = w, cfg_crashed = False\<rparr>"
    by (simp add: move_def List_Run_step_def List_Run_call_def l)
  moreover have "\<forall>sched. cfg_pool (exec ctx sched (List_Run_call l w)) = []
            \<and> cfg_world (exec ctx sched (List_Run_call l w)) = w"
    using exec_empty [OF l] by blast
  moreover have "Chain_Run ctx c w =
           \<lparr>returned = None, chain = c\<lparr>Chain_tasks := None\<rparr>, world = w, called = []\<rparr>"
    by (simp add: Chain_Run_def c)
  ultimately show ?thesis by blast
qed

theorem Run_empty_is_no_op_witness:
  "len (List_tasks (\<lparr>List_tasks = Some []\<rparr> :: (unit, string list, string) List)) = 0
 \<and> len (Chain_tasks (\<lparr>Chain_tasks = None\<rparr> :: (unit, string list, string) Chain)) = 0
 \<and> snd (List_Run () (\<lparr>List_tasks = Some []\<rparr> :: (unit, string list, string) List)) = []
 \<and> cfg_pool (exec () [Goroutine 0, Caller, Goroutine 0]
      (List_Run_call (\<lparr>List_tasks = Some []\<rparr> :: (unit, string list, string) List) [''w''])) = []
 \<and> Chain_Run () (\<lparr>Chain_tasks = None\<rparr> :: (unit, string list, string) Chain) [''w''] =
      \<lparr>returned = None, chain = \<lparr>Chain_tasks = None\<rparr>, world = [''w''], called = []\<rparr>"
proof -
  have h1: "len (List_tasks (\<lparr>List_tasks = Some []\<rparr> :: (unit, string list, string) List)) = 0"
    and h2: "len (Chain_tasks (\<lparr>Chain_tasks = None\<rparr> :: (unit, string list, string) Chain)) = 0"
    by (simp_all add: len_def elems_def)
  note r = Run_empty_is_no_op [OF h1 h2, of "()" "[''w'']"]
  from r have "cfg_pool (exec () [Goroutine 0, Caller, Goroutine 0]
      (List_Run_call (\<lparr>List_tasks = Some []\<rparr> :: (unit, string list, string) List) [''w''])) = []"
    by blast
  moreover from r have "Chain_Run () (\<lparr>Chain_tasks = None\<rparr> :: (unit, string list, string) Chain) [''w''] =
      \<lparr>returned = None, chain = \<lparr>Chain_tasks = None\<rparr>, world = [''w''], called = []\<rparr>"
    by simp
  moreover from r have "snd (List_Run () (\<lparr>List_tasks = Some []\<rparr> :: (unit, string list, string) List)) = []"
    by blast
  ultimately show ?thesis using h1 h2 by blast
qed

text \<open>
  Claim C8: \<^verbatim>\<open>Func(f).Run(ctx)\<close> returns what \<^verbatim>\<open>f(ctx)\<close> returns and has no other
  effect: as a task, \<^verbatim>\<open>Func(f)\<close> is \<open>f\<close>.
\<close>

theorem Func_Run_forwards: "Func_Run f ctx w = f ctx w \<and> Func_Run f = f"
  by (simp add: Func_Run_def fun_eq_iff)

text \<open>
  Claim C9: the zero value of \<^verbatim>\<open>List\<close> and of \<^verbatim>\<open>Chain\<close> (the \<^verbatim>\<open>tasks\<close> slice is nil)
  is usable as it is: \<^verbatim>\<open>Add\<close> and then \<^verbatim>\<open>Run\<close> on it do what they do on any instance
  with no task. For a list \<open>l\<close> and a chain \<open>c\<close> with no task, \<^verbatim>\<open>Add\<close> on \<open>l\<close>
  gives the list that \<^verbatim>\<open>Add\<close> on the zero value gives, and \<^verbatim>\<open>Add\<close> and \<^verbatim>\<open>Run\<close> on \<open>c\<close>
  give what they give on the zero value. On the zero value, \<^verbatim>\<open>Add\<close> and \<^verbatim>\<open>Run\<close> of a
  list start the goroutine of the added pair and nothing else, and \<^verbatim>\<open>Add\<close> and \<^verbatim>\<open>Run\<close>
  of a chain call the added task once and return its error: the runner adds no error
  of its own.
\<close>

theorem zero_value_is_usable:
  assumes "len (List_tasks l) = 0" and "len (Chain_tasks c) = 0"
  shows "List_Add l t e = List_Add \<lparr>List_tasks = None\<rparr> t e
       \<and> List_Run ctx (List_Add \<lparr>List_tasks = None\<rparr> t e) =
           (\<lparr>List_tasks = None\<rparr>, [go ctx \<lparr>task_t = t, task_e = e\<rparr>])
       \<and> Chain_Run ctx (Chain_Add c ts) w = Chain_Run ctx (Chain_Add \<lparr>Chain_tasks = None\<rparr> ts) w
       \<and> returned (Chain_Run ctx (Chain_Add \<lparr>Chain_tasks = None\<rparr> [tk]) w) = fst (tk ctx w)
       \<and> world (Chain_Run ctx (Chain_Add \<lparr>Chain_tasks = None\<rparr> [tk]) w) = snd (tk ctx w)
       \<and> called (Chain_Run ctx (Chain_Add \<lparr>Chain_tasks = None\<rparr> [tk]) w) = [0]"
proof -
  from assms have l: "elems (List_tasks l) = []" and c: "elems (Chain_tasks c) = []"
    by (simp_all add: len_def)
  have "List_Add l t e = l\<lparr>List_tasks := Some [\<lparr>task_t = t, task_e = e\<rparr>]\<rparr>"
    by (simp add: List_Add_def append_slice_def l)
  then have "List_Add l t e = List_Add \<lparr>List_tasks = None\<rparr> t e"
    by (cases l) (simp add: List_Add_def append_slice_def elems_def)
  moreover have "List_Run ctx (List_Add \<lparr>List_tasks = None\<rparr> t e) =
           (\<lparr>List_tasks = None\<rparr>, [go ctx \<lparr>task_t = t, task_e = e\<rparr>])"
    by (simp add: List_Run_def List_Add_def append_slice_def elems_def)
  moreover have "Chain_Run ctx (Chain_Add c ts) w
      = Chain_Run ctx (Chain_Add \<lparr>Chain_tasks = None\<rparr> ts) w"
    using c by (cases c; cases ts)
      (auto simp: Chain_Run_def Chain_Add_def append_slice_def elems_def split: option.splits)
  moreover have "returned (Chain_Run ctx (Chain_Add \<lparr>Chain_tasks = None\<rparr> [tk]) w) = fst (tk ctx w)"
    and "world (Chain_Run ctx (Chain_Add \<lparr>Chain_tasks = None\<rparr> [tk]) w) = snd (tk ctx w)"
    and "called (Chain_Run ctx (Chain_Add \<lparr>Chain_tasks = None\<rparr> [tk]) w) = [0]"
    by (auto simp: Chain_Run_def Chain_Add_def append_slice_def elems_def
        split: prod.splits option.splits)
  ultimately show ?thesis by blast
qed

theorem zero_value_is_usable_witness:
  "len (List_tasks (\<lparr>List_tasks = Some []\<rparr> :: (unit, string list, string) List)) = 0
 \<and> len (Chain_tasks (\<lparr>Chain_tasks = Some []\<rparr> :: (unit, string list, string) Chain)) = 0
 \<and> List_Add \<lparr>List_tasks = Some []\<rparr> (succeed ''t1'') (logging ''H1'')
      = List_Add \<lparr>List_tasks = None\<rparr> (succeed ''t1'') (logging ''H1'')
 \<and> Chain_Run () (Chain_Add \<lparr>Chain_tasks = Some []\<rparr> [fail ''t2'' ''x'']) []
      = Chain_Run () (Chain_Add \<lparr>Chain_tasks = None\<rparr> [fail ''t2'' ''x'']) []
 \<and> returned (Chain_Run () (Chain_Add \<lparr>Chain_tasks = None\<rparr> [fail ''t2'' ''x'']) []) = Some ''x''"
proof -
  have h1: "len (List_tasks (\<lparr>List_tasks = Some []\<rparr> :: (unit, string list, string) List)) = 0"
    and h2: "len (Chain_tasks (\<lparr>Chain_tasks = Some []\<rparr> :: (unit, string list, string) Chain)) = 0"
    by (simp_all add: len_def elems_def)
  from zero_value_is_usable [OF h1 h2, of "succeed ''t1''" "logging ''H1''" "()"
      "[fail ''t2'' ''x'']" "[]" "fail ''t2'' ''x''"] h1 h2
  show ?thesis by (simp add: fail_def)
qed

end
